theory Spec2Isabelle
  imports Main "HOL-Library.Sublist" "HOL-Library.Multiset"
begin

section \<open>The blackjack engine of internal/game/mockjack.go\<close>

subsection \<open>Cards\<close>

text \<open>
  The Go enumerations \<^verbatim>\<open>State\<close>, \<^verbatim>\<open>Suit\<close> and \<^verbatim>\<open>Rank\<close> are integer types with
  named constants; the engine builds cards only from the named constants (the loops of
  \<^verbatim>\<open>reset\<close> run from \<^verbatim>\<open>Clubs\<close> to \<^verbatim>\<open>Spades\<close> and from \<^verbatim>\<open>Ace\<close> to \<^verbatim>\<open>King\<close>). They are
  datatypes here; \<open>rankNum\<close> gives the integer a rank constant stands for, which is what
  the comparisons \<^verbatim>\<open>card.Rank >= Ten\<close> and the conversion \<^verbatim>\<open>int(card.Rank)\<close> read.
\<close>

datatype State = WaitingDeal | PlayerTurn | DealerTurn | RoundOver

datatype Suit = Clubs | Diamonds | Hearts | Spades

datatype Rank = Ace | Two | Three | Four | Five | Six | Seven | Eight | Nine | Ten
  | Jack | Queen | King

fun rankNum :: "Rank \<Rightarrow> int" where
  "rankNum Ace = 1"
| "rankNum Two = 2"
| "rankNum Three = 3"
| "rankNum Four = 4"
| "rankNum Five = 5"
| "rankNum Six = 6"
| "rankNum Seven = 7"
| "rankNum Eight = 8"
| "rankNum Nine = 9"
| "rankNum Ten = 10"
| "rankNum Jack = 11"
| "rankNum Queen = 12"
| "rankNum King = 13"

record Card =
  Suit :: Suit
  Rank :: Rank

subsection \<open>Hands\<close>

record Hand =
  Cards :: "Card list"

definition Clear :: "Hand \<Rightarrow> Hand" where
  "Clear h = h\<lparr>Cards := []\<rparr>"

definition Add :: "Hand \<Rightarrow> Card \<Rightarrow> Hand" where
  "Add h c = h\<lparr>Cards := Cards h @ [c]\<rparr>"

text \<open>
  The first loop of \<^verbatim>\<open>Value\<close>: it runs over the cards with the two counters \<^verbatim>\<open>total\<close>
  (here \<open>tot\<close>) and \<^verbatim>\<open>aces\<close>, every Ace counting 11. Go's \<^verbatim>\<open>int\<close> has 64 bits; a hand would need
  more than \<open>2 ^ 59\<close> cards before a counter could wrap, so the counters are integers.
\<close>

fun acesHighLoop :: "Card list \<Rightarrow> int \<Rightarrow> int \<Rightarrow> int \<times> int" where
  "acesHighLoop [] tot aces = (tot, aces)"
| "acesHighLoop (c # rest) tot aces =
     (if Rank c = Ace then acesHighLoop rest (tot + 11) (aces + 1)
      else if rankNum Ten \<le> rankNum (Rank c) then acesHighLoop rest (tot + 10) aces
      else acesHighLoop rest (tot + rankNum (Rank c)) aces)"

text \<open>The second loop: \<^verbatim>\<open>for total > 21 && aces > 0 { total -= 10; aces-- }\<close>.\<close>

function demoteLoop :: "int \<Rightarrow> int \<Rightarrow> int \<times> int" where
  "demoteLoop tot aces =
     (if tot > 21 \<and> aces > 0 then demoteLoop (tot - 10) (aces - 1) else (tot, aces))"
  by pat_completeness auto
termination
  by (relation "measure (\<lambda>(tot, aces). nat aces)") auto

declare demoteLoop.simps [simp del]

text \<open>The third loop: the hard total (every Ace counting 1) and the number of Aces.\<close>

fun hardLoop :: "Card list \<Rightarrow> int \<Rightarrow> int \<Rightarrow> int \<times> int" where
  "hardLoop [] hard aceCount = (hard, aceCount)"
| "hardLoop (c # rest) hard aceCount =
     (if Rank c = Ace then hardLoop rest (hard + 1) (aceCount + 1)
      else if rankNum Ten \<le> rankNum (Rank c) then hardLoop rest (hard + 10) aceCount
      else hardLoop rest (hard + rankNum (Rank c)) aceCount)"

definition Value :: "Hand \<Rightarrow> int \<times> bool" where
  "Value h =
     (let (total0, aces0) = acesHighLoop (Cards h) 0 0;
          (tot, aces) = demoteLoop total0 aces0;
          (hard, aceCount) = hardLoop (Cards h) 0 0;
          isSoft = (aceCount > 0 \<and> hard + 10 \<le> 21)
      in (tot, isSoft))"

subsection \<open>The deck\<close>

text \<open>
  The random source of \<^verbatim>\<open>math/rand\<close> is the sequence of raw numbers it will produce;
  \<^verbatim>\<open>Intn(n)\<close> (called with \<open>n \<ge> 2\<close> only) reduces the next one below \<open>n\<close> and moves on.
  Every sequence of answers of the library is the behaviour of some such source.
\<close>

type_synonym Rand = "nat \<Rightarrow> nat"

definition Intn :: "Rand \<Rightarrow> nat \<Rightarrow> nat \<times> Rand" where
  "Intn r n = (r 0 mod n, \<lambda>k. r (Suc k))"

record Deck =
  cards :: "Card list"
  rng :: Rand
  shoe :: int

text \<open>
  The loop of \<^verbatim>\<open>shuffle\<close>, \<^verbatim>\<open>for i := n - 1; i > 0; i--\<close>: the argument is the index
  \<open>i\<close>, and the loop ends at 0 (an empty deck starts it at \<open>-1\<close> in Go and at \<open>0\<close> here:
  no iteration either way).
\<close>

fun shuffleLoop :: "nat \<Rightarrow> Card list \<Rightarrow> Rand \<Rightarrow> Card list \<times> Rand" where
  "shuffleLoop 0 cs r = (cs, r)"
| "shuffleLoop (Suc i) cs r =
     (let (j, r') = Intn r (Suc i + 1)
      in shuffleLoop i (cs[Suc i := cs ! j, j := cs ! Suc i]) r')"

definition shuffle :: "Deck \<Rightarrow> Deck" where
  "shuffle d =
     (let n = length (cards d);
          (cs, r) = shuffleLoop (n - 1) (cards d) (rng d)
      in d\<lparr>cards := cs, rng := r\<rparr>)"

definition allSuits :: "Suit list" where
  "allSuits = [Clubs, Diamonds, Hearts, Spades]"

definition allRanks :: "Rank list" where
  "allRanks = [Ace, Two, Three, Four, Five, Six, Seven, Eight, Nine, Ten, Jack, Queen, King]"

text \<open>
  \<^verbatim>\<open>reset\<close>: the three nested loops append, for each suit and each rank in order,
  \<^verbatim>\<open>shoe\<close> copies of the card (none when \<^verbatim>\<open>shoe\<close> is below 1), and the deck is shuffled.
\<close>

definition freshCards :: "int \<Rightarrow> Card list" where
  "freshCards n =
     concat (map (\<lambda>s. concat (map (\<lambda>r. replicate (nat n) \<lparr>Suit = s, Rank = r\<rparr>) allRanks))
       allSuits)"

definition reset :: "Deck \<Rightarrow> Deck" where
  "reset d = shuffle (d\<lparr>cards := freshCards (shoe d)\<rparr>)"

definition NewDeck :: "int \<Rightarrow> Rand \<Rightarrow> Deck" where
  "NewDeck shoe0 r =
     (let shoe1 = (if shoe0 < 1 then 1 else shoe0)
      in reset \<lparr>cards = [], rng = r, shoe = shoe1\<rparr>)"

text \<open>
  \<^verbatim>\<open>Draw\<close>: the index expression \<^verbatim>\<open>d.cards[len(d.cards)-1]\<close> panics on an empty
  slice; the panic is the result \<open>None\<close>.
\<close>

definition Draw :: "Deck \<Rightarrow> (Card \<times> Deck) option" where
  "Draw d =
     (let d1 = (if length (cards d) = 0 then reset d else d)
      in if cards d1 = [] then None
         else Some (last (cards d1), d1\<lparr>cards := butlast (cards d1)\<rparr>))"

subsection \<open>Formatting\<close>

text \<open>The verb \<^verbatim>\<open>%d\<close> of \<^verbatim>\<open>fmt.Sprintf\<close>: a decimal numeral, with a minus sign below 0.\<close>

definition digitChar :: "nat \<Rightarrow> char" where
  "digitChar n = ''0123456789'' ! n"

function showNat :: "nat \<Rightarrow> string" where
  "showNat n = (if n < 10 then [digitChar n] else showNat (n div 10) @ [digitChar (n mod 10)])"
  by pat_completeness auto
termination
  by (relation "measure id") auto

declare showNat.simps [simp del]

definition showInt :: "int \<Rightarrow> string" where
  "showInt i = (if i < 0 then ''-'' @ showNat (nat (- i)) else showNat (nat i))"

subsection \<open>The game\<close>

record Game =
  Deck :: Deck
  Player :: Hand
  Dealer :: Hand
  State :: State
  Result :: string

definition NewGame :: "int \<Rightarrow> Rand \<Rightarrow> Game" where
  "NewGame shoe0 r =
     \<lparr>Deck = NewDeck shoe0 r, Player = \<lparr>Cards = []\<rparr>, Dealer = \<lparr>Cards = []\<rparr>,
      State = WaitingDeal, Result = []\<rparr>"

definition finishRound :: "Game \<Rightarrow> Game" where
  "finishRound g =
     (let playerValue = fst (Value (Player g));
          dealerValue = fst (Value (Dealer g))
      in g\<lparr>State := RoundOver,
           Result :=
             (if playerValue > 21 then
                ''Player busts ('' @ showInt playerValue @ ''). Dealer wins.''
              else if dealerValue > 21 then
                ''Dealer busts ('' @ showInt dealerValue @ ''). Player wins!''
              else if playerValue > dealerValue then
                ''Player wins! ('' @ showInt playerValue @ '' vs '' @ showInt dealerValue @ '')''
              else if playerValue < dealerValue then
                ''Dealer wins. ('' @ showInt dealerValue @ '' vs '' @ showInt playerValue @ '')''
              else
                ''Push. ('' @ showInt playerValue @ '' vs '' @ showInt dealerValue @ '')'')\<rparr>)"

text \<open>The statements \<^verbatim>\<open>g.Player.Add(g.Deck.Draw())\<close> and \<^verbatim>\<open>g.Dealer.Add(g.Deck.Draw())\<close>.\<close>

definition playerDraw :: "Game \<Rightarrow> Game option" where
  "playerDraw g =
     (case Draw (Deck g) of
        None \<Rightarrow> None
      | Some (c, d) \<Rightarrow> Some (g\<lparr>Deck := d, Player := Add (Player g) c\<rparr>))"

definition dealerDraw :: "Game \<Rightarrow> Game option" where
  "dealerDraw g =
     (case Draw (Deck g) of
        None \<Rightarrow> None
      | Some (c, d) \<Rightarrow> Some (g\<lparr>Deck := d, Dealer := Add (Dealer g) c\<rparr>))"

definition Deal :: "Game \<Rightarrow> Game option" where
  "Deal g =
     (let g0 = g\<lparr>Player := Clear (Player g), Dealer := Clear (Dealer g),
                 Result := [], State := PlayerTurn\<rparr>
      in case playerDraw g0 of None \<Rightarrow> None | Some g1 \<Rightarrow>
         (case dealerDraw g1 of None \<Rightarrow> None | Some g2 \<Rightarrow>
         (case playerDraw g2 of None \<Rightarrow> None | Some g3 \<Rightarrow>
         (case dealerDraw g3 of None \<Rightarrow> None | Some g4 \<Rightarrow>
            (let playerValue = fst (Value (Player g4));
                 dealerValue = fst (Value (Dealer g4))
             in if playerValue = 21 \<or> dealerValue = 21 then Some (finishRound g4)
                else Some g4)))))"

definition PlayerHit :: "Game \<Rightarrow> Game option" where
  "PlayerHit g =
     (if State g \<noteq> PlayerTurn then Some g
      else case playerDraw g of
             None \<Rightarrow> None
           | Some g1 \<Rightarrow>
               (let playerValue = fst (Value (Player g1))
                in if playerValue > 21 then Some (finishRound g1) else Some g1))"

definition isDealerSoft :: "Game \<Rightarrow> bool" where
  "isDealerSoft g = snd (Value (Dealer g))"

text \<open>
  The dealer's loop of \<^verbatim>\<open>PlayerStand\<close>: \<^verbatim>\<open>for { ... }\<close> with a \<^verbatim>\<open>break\<close> in the
  branch that does not draw. Its termination is proved below, from the hard total of
  the dealer's hand, which every drawn card raises.
\<close>

function dealerLoop :: "Game \<Rightarrow> Game option" where
  "dealerLoop g =
     (let dealerValue = fst (Value (Dealer g))
      in if dealerValue < 17 \<or> (dealerValue = 17 \<and> isDealerSoft g) then
           (case dealerDraw g of None \<Rightarrow> None | Some g1 \<Rightarrow> dealerLoop g1)
         else Some g)"
  by pat_completeness auto

definition PlayerStand :: "Game \<Rightarrow> Game option" where
  "PlayerStand g =
     (if State g \<noteq> PlayerTurn then Some g
      else case dealerLoop (g\<lparr>State := DealerTurn\<rparr>) of
             None \<Rightarrow> None
           | Some g1 \<Rightarrow> Some (finishRound g1))"

subsection \<open>The words of the specification\<close>

text \<open>The points of a card with every Ace counting 1, and the hard total of a hand.\<close>

definition cardPoints :: "Card \<Rightarrow> int" where
  "cardPoints c =
     (if Rank c = Ace then 1 else if 10 \<le> rankNum (Rank c) then 10 else rankNum (Rank c))"

definition hardSum :: "Card list \<Rightarrow> int" where
  "hardSum cs = sum_list (map cardPoints cs)"

text \<open>The sum of the non-Ace ranks, every rank from 10 on counting 10; the number of Aces.\<close>

definition nonAceSum :: "Card list \<Rightarrow> int" where
  "nonAceSum cs =
     sum_list (map (\<lambda>c. if 10 \<le> rankNum (Rank c) then 10 else rankNum (Rank c))
       (filter (\<lambda>c. Rank c \<noteq> Ace) cs))"

definition numAces :: "Card list \<Rightarrow> nat" where
  "numAces cs = length (filter (\<lambda>c. Rank c = Ace) cs)"

text \<open>
  Subtracting 10 once per Ace while the running total exceeds 21 and an Ace still
  counted as 11 remains: the first argument is the number of Aces still counted as 11.
\<close>

fun demoteSpec :: "nat \<Rightarrow> int \<Rightarrow> int" where
  "demoteSpec 0 t = t"
| "demoteSpec (Suc k) t = (if t > 21 then demoteSpec k (t - 10) else t)"

text \<open>
  Softness read off the first pass: an Ace is still counted as 11 when the demotion
  loop of \<^verbatim>\<open>Value\<close> ends.
\<close>

definition softByDemotion :: "Hand \<Rightarrow> bool" where
  "softByDemotion h =
     (let (total0, aces0) = acesHighLoop (Cards h) 0 0;
          (tot, aces) = demoteLoop total0 aces0
      in aces > 0)"

text \<open>The dealer's rule: draw below 17 and on a soft 17.\<close>

definition dealerMustDraw :: "Hand \<Rightarrow> bool" where
  "dealerMustDraw h = (fst (Value h) < 17 \<or> (fst (Value h) = 17 \<and> snd (Value h)))"

text \<open>The states the engine can be in: a new game, and whatever the three actions make of it.\<close>

inductive reachable :: "Game \<Rightarrow> bool" where
  new: "reachable (NewGame shoe0 r)"
| deal: "reachable g \<Longrightarrow> Deal g = Some g' \<Longrightarrow> reachable g'"
| hit: "reachable g \<Longrightarrow> PlayerHit g = Some g' \<Longrightarrow> reachable g'"
| stand: "reachable g \<Longrightarrow> PlayerStand g = Some g' \<Longrightarrow> reachable g'"

section \<open>The value of a hand\<close>

lemma rankNum_pos: "1 \<le> rankNum r"
  by (cases r) simp_all

lemma cardPoints_pos: "1 \<le> cardPoints c"
  using rankNum_pos [of "Rank c"] by (simp add: cardPoints_def)

lemma acesHighLoop_eq:
  "acesHighLoop cs t a = (t + nonAceSum cs + 11 * int (numAces cs), a + int (numAces cs))"
  by (induction cs arbitrary: t a) (simp_all add: nonAceSum_def numAces_def)

lemma hardLoop_eq: "hardLoop cs h a = (h + hardSum cs, a + int (numAces cs))"
  by (induction cs arbitrary: h a) (simp_all add: hardSum_def numAces_def cardPoints_def)

lemma hardSum_split: "hardSum cs = nonAceSum cs + int (numAces cs)"
  by (induction cs) (simp_all add: hardSum_def nonAceSum_def numAces_def cardPoints_def)

lemma numAces_le_hardSum: "int (numAces cs) \<le> hardSum cs"
proof (induction cs)
  case Nil
  show ?case by (simp add: hardSum_def numAces_def)
next
  case (Cons c cs)
  have "1 \<le> cardPoints c" by (rule cardPoints_pos)
  with Cons show ?case by (simp add: hardSum_def numAces_def)
qed

lemma numAces_pos_iff: "(0 < numAces cs) = (Ace \<in> set (map Rank cs))"
  by (induction cs) (auto simp: numAces_def)

lemma demoteLoop_closed:
  "0 \<le> a \<Longrightarrow> a \<le> hv \<Longrightarrow>
   demoteLoop (hv + 10 * a) a = (if 1 \<le> a \<and> hv + 10 \<le> 21 then (hv + 10, 1) else (hv, 0))"
proof (induction "hv + 10 * a" a arbitrary: hv rule: demoteLoop.induct)
  case (1 aces)
  show ?case
  proof (cases "hv + 10 * aces > 21 \<and> aces > 0")
    case True
    then have step: "demoteLoop (hv + 10 * aces) aces = demoteLoop (hv + 10 * (aces - 1)) (aces - 1)"
      by (subst demoteLoop.simps) (simp add: algebra_simps)
    have "demoteLoop (hv + 10 * (aces - 1)) (aces - 1) =
        (if 1 \<le> aces - 1 \<and> hv + 10 \<le> 21 then (hv + 10, 1) else (hv, 0))"
      using "1.hyps" [of hv] True "1.prems" by (simp add: algebra_simps)
    with step True show ?thesis by auto
  next
    case False
    then have stop: "demoteLoop (hv + 10 * aces) aces = (hv + 10 * aces, aces)"
      by (subst demoteLoop.simps) auto
    from False "1.prems" show ?thesis unfolding stop by auto
  qed
qed

lemma demoteLoop_no_aces: "demoteLoop t 0 = (t, 0)"
  by (subst demoteLoop.simps) simp

lemma demoteLoop_spec: "fst (demoteLoop t (int k)) = demoteSpec k t"
proof (induction k arbitrary: t)
  case 0
  show ?case by (subst demoteLoop.simps) simp
next
  case (Suc k)
  have "int (Suc k) - 1 = int k" by simp
  with Suc [of "t - 10"] show ?case by (subst demoteLoop.simps) simp
qed

lemma Value_closed:
  "Value h =
     (if Ace \<in> set (map Rank (Cards h)) \<and> hardSum (Cards h) + 10 \<le> 21
      then (hardSum (Cards h) + 10, True) else (hardSum (Cards h), False))"
proof -
  let ?cs = "Cards h"
  have a: "acesHighLoop ?cs 0 0 = (hardSum ?cs + 10 * int (numAces ?cs), int (numAces ?cs))"
    by (simp add: acesHighLoop_eq hardSum_split)
  have d: "demoteLoop (hardSum ?cs + 10 * int (numAces ?cs)) (int (numAces ?cs)) =
      (if 1 \<le> int (numAces ?cs) \<and> hardSum ?cs + 10 \<le> 21 then (hardSum ?cs + 10, 1)
       else (hardSum ?cs, 0))"
    by (rule demoteLoop_closed) (simp_all add: numAces_le_hardSum)
  show ?thesis
  proof (cases "Ace \<in> set (map Rank ?cs)")
    case True
    then have "0 < numAces ?cs" using numAces_pos_iff [of ?cs] by simp
    then have "1 \<le> int (numAces ?cs)" "0 < int (numAces ?cs)" by simp_all
    with True show ?thesis by (simp add: Value_def a hardLoop_eq d del: set_map)
  next
    case False
    then have "numAces ?cs = 0" using numAces_pos_iff [of ?cs] by simp
    with False show ?thesis by (simp add: Value_def a hardLoop_eq demoteLoop_no_aces del: set_map)
  qed
qed

lemma softByDemotion_closed:
  "softByDemotion h = (Ace \<in> set (map Rank (Cards h)) \<and> hardSum (Cards h) + 10 \<le> 21)"
proof -
  let ?cs = "Cards h"
  have a: "acesHighLoop ?cs 0 0 = (hardSum ?cs + 10 * int (numAces ?cs), int (numAces ?cs))"
    by (simp add: acesHighLoop_eq hardSum_split)
  have d: "demoteLoop (hardSum ?cs + 10 * int (numAces ?cs)) (int (numAces ?cs)) =
      (if 1 \<le> int (numAces ?cs) \<and> hardSum ?cs + 10 \<le> 21 then (hardSum ?cs + 10, 1)
       else (hardSum ?cs, 0))"
    by (rule demoteLoop_closed) (simp_all add: numAces_le_hardSum)
  show ?thesis
  proof (cases "Ace \<in> set (map Rank ?cs)")
    case True
    then have "0 < numAces ?cs" using numAces_pos_iff [of ?cs] by simp
    then have "1 \<le> int (numAces ?cs)" by simp
    with True show ?thesis unfolding softByDemotion_def a by (simp add: d del: set_map)
  next
    case False
    then have "numAces ?cs = 0" using numAces_pos_iff [of ?cs] by simp
    with False show ?thesis
      unfolding softByDemotion_def a by (simp add: demoteLoop_no_aces del: set_map)
  qed
qed

lemma Value_two_aces:
  "Value \<lparr>Cards = [\<lparr>Suit = s1, Rank = Ace\<rparr>, \<lparr>Suit = s2, Rank = Ace\<rparr>]\<rparr> = (12, True)"
  by (simp add: Value_closed hardSum_def cardPoints_def)

text \<open>
  C2. For every hand, the first component of \<open>Value\<close> is the total the specification
  describes: the non-Ace ranks (10 for every rank from 10 on) plus 11 for each Ace,
  lowered by 10 once per Ace while it exceeds 21 and an Ace still counts 11.
  Equivalently it is the hard total plus 10 when the hand has an Ace and the hard total
  plus 10 is at most 21, and the hard total otherwise. A hand of exactly two Aces has
  the value (12, true).
\<close>

theorem Value_best:
  "fst (Value h) =
     demoteSpec (numAces (Cards h)) (nonAceSum (Cards h) + 11 * int (numAces (Cards h)))
   \<and> fst (Value h) =
     (if Ace \<in> set (map Rank (Cards h)) \<and> hardSum (Cards h) + 10 \<le> 21
      then hardSum (Cards h) + 10 else hardSum (Cards h))
   \<and> Value \<lparr>Cards = [\<lparr>Suit = s1, Rank = Ace\<rparr>, \<lparr>Suit = s2, Rank = Ace\<rparr>]\<rparr> = (12, True)"
proof -
  have "fst (Value h) =
      fst (demoteLoop (nonAceSum (Cards h) + 11 * int (numAces (Cards h)))
        (int (numAces (Cards h))))"
    by (simp add: Value_def acesHighLoop_eq split: prod.splits)
  then have first: "fst (Value h) =
      demoteSpec (numAces (Cards h)) (nonAceSum (Cards h) + 11 * int (numAces (Cards h)))"
    by (simp only: demoteLoop_spec)
  have second: "fst (Value h) =
     (if Ace \<in> set (map Rank (Cards h)) \<and> hardSum (Cards h) + 10 \<le> 21
      then hardSum (Cards h) + 10 else hardSum (Cards h))"
    by (simp add: Value_closed del: set_map)
  from first second Value_two_aces show ?thesis by blast
qed

text \<open>
  C3. For every hand, with any number of Aces, the flag \<open>isSoft\<close> that \<open>Value\<close>
  computes in its second pass (an Ace in the hand and hard total plus 10 at most 21)
  is the same as "an Ace is still counted as 11 when the demotion loop of the first pass
  ends", and the same as "the value returned exceeds the hard total".
\<close>

theorem isSoft_agrees:
  "snd (Value h) = (Ace \<in> set (map Rank (Cards h)) \<and> hardSum (Cards h) + 10 \<le> 21)
   \<and> snd (Value h) = softByDemotion h
   \<and> snd (Value h) = (hardSum (Cards h) < fst (Value h))"
proof -
  have one: "snd (Value h) = (Ace \<in> set (map Rank (Cards h)) \<and> hardSum (Cards h) + 10 \<le> 21)"
    by (simp add: Value_closed del: set_map)
  have two: "snd (Value h) = softByDemotion h"
    by (simp only: one softByDemotion_closed)
  have three: "snd (Value h) = (hardSum (Cards h) < fst (Value h))"
    by (simp add: Value_closed del: set_map)
  from one two three show ?thesis by blast
qed

section \<open>The deck\<close>

lemma length_freshCards: "length (freshCards n) = 52 * nat n"
  by (simp add: freshCards_def allSuits_def allRanks_def)

lemma count_freshCards: "count (mset (freshCards n)) \<lparr>Suit = s, Rank = r\<rparr> = nat n"
  by (cases s; cases r; simp add: freshCards_def allSuits_def allRanks_def)

lemma shuffleLoop_mset: "i < length cs \<Longrightarrow> mset (fst (shuffleLoop i cs r)) = mset cs"
proof (induction i arbitrary: cs r)
  case 0
  show ?case by simp
next
  case (Suc i)
  let ?j = "r 0 mod Suc (Suc i)"
  have j: "?j < length cs"
  proof -
    have "?j < Suc (Suc i)" by simp
    with Suc.prems show ?thesis by linarith
  qed
  let ?cs' = "cs[Suc i := cs ! ?j, ?j := cs ! Suc i]"
  have swap: "mset ?cs' = mset cs"
    using mset_swap [OF j Suc.prems] .
  have "i < length ?cs'" using Suc.prems by simp
  then have "mset (fst (shuffleLoop i ?cs' (\<lambda>k. r (Suc k)))) = mset ?cs'"
    by (rule Suc.IH)
  with swap show ?case by (simp add: Intn_def)
qed

lemma shuffle_cards: "mset (cards (shuffle d)) = mset (cards d)"
proof (cases "cards d = []")
  case True
  then show ?thesis by (simp add: shuffle_def)
next
  case False
  then have "length (cards d) - 1 < length (cards d)" by simp
  then have "mset (fst (shuffleLoop (length (cards d) - 1) (cards d) (rng d))) = mset (cards d)"
    by (rule shuffleLoop_mset)
  then show ?thesis by (auto simp: shuffle_def split: prod.splits)
qed

lemma shuffle_shoe: "shoe (shuffle d) = shoe d"
  by (simp add: shuffle_def split: prod.splits)

lemma reset_cards: "mset (cards (reset d)) = mset (freshCards (shoe d))"
  by (simp add: reset_def shuffle_cards)

lemma reset_shoe: "shoe (reset d) = shoe d"
  by (simp add: reset_def shuffle_shoe)

lemma reset_length: "length (cards (reset d)) = 52 * nat (shoe d)"
proof -
  have "size (mset (cards (reset d))) = size (mset (freshCards (shoe d)))"
    by (simp only: reset_cards)
  then show ?thesis by (simp add: length_freshCards)
qed

lemma Draw_full:
  assumes "cards d \<noteq> []"
  shows "Draw d = Some (last (cards d), d\<lparr>cards := butlast (cards d)\<rparr>)"
  using assms by (simp add: Draw_def Let_def)

lemma Draw_empty:
  assumes "cards d = []" and "1 \<le> shoe d"
  shows "Draw d = Some (last (cards (reset d)), (reset d)\<lparr>cards := butlast (cards (reset d))\<rparr>)"
proof -
  have "length (cards (reset d)) \<noteq> 0"
    using assms(2) by (simp add: reset_length)
  then have "cards (reset d) \<noteq> []" by simp
  with assms(1) show ?thesis by (simp add: Draw_def Let_def)
qed

lemma Draw_some:
  assumes "1 \<le> shoe d"
  shows "\<exists>c d'. Draw d = Some (c, d') \<and> shoe d' = shoe d"
proof (cases "cards d = []")
  case True
  from Draw_empty [OF True assms] show ?thesis by (simp add: reset_shoe)
next
  case False
  from Draw_full [OF False] show ?thesis by simp
qed

lemma NewDeck_shoe: "shoe (NewDeck shoe0 r) = max shoe0 1"
  by (simp add: NewDeck_def reset_shoe max_def)

lemma NewDeck_cards: "mset (cards (NewDeck shoe0 r)) = mset (freshCards (max shoe0 1))"
  by (simp add: NewDeck_def reset_cards max_def)

lemma NewDeck_length: "length (cards (NewDeck shoe0 r)) = 52 * nat (max shoe0 1)"
  by (simp add: NewDeck_def reset_length max_def)

text \<open>
  C8. \<open>NewDeck\<close> raises a shoe count below 1 to 1 and builds 52 times that many cards,
  that many copies of each of the 52 cards. On a deck whose shoe count is at least 1
  (every deck \<open>NewDeck\<close> makes, and \<open>Draw\<close> keeps the count), \<open>Draw\<close> always returns
  a card: on an empty deck it first rebuilds and reshuffles the 52 times \<open>shoe\<close> cards,
  so the last card exists, and the deck left is one card shorter than the deck (refilled
  when it was empty) the card was taken from.
\<close>

theorem Draw_never_empty:
  "shoe (NewDeck shoe0 r) = max shoe0 1
   \<and> length (cards (NewDeck shoe0 r)) = 52 * nat (max shoe0 1)
   \<and> count (mset (cards (NewDeck shoe0 r))) \<lparr>Suit = s, Rank = rk\<rparr> = nat (max shoe0 1)
   \<and> (1 \<le> shoe d \<longrightarrow>
        (\<exists>c d'. Draw d = Some (c, d')
           \<and> shoe d' = shoe d
           \<and> (if cards d = []
               then length (cards (reset d)) = 52 * nat (shoe d)
                    \<and> mset (cards (reset d)) = mset (freshCards (shoe d))
                    \<and> c = last (cards (reset d)) \<and> cards d' = butlast (cards (reset d))
               else c = last (cards d) \<and> cards d' = butlast (cards d))
           \<and> Suc (length (cards d')) =
               (if cards d = [] then 52 * nat (shoe d) else length (cards d))))"
proof -
  have count: "count (mset (cards (NewDeck shoe0 r))) \<lparr>Suit = s, Rank = rk\<rparr> = nat (max shoe0 1)"
    by (simp only: NewDeck_cards count_freshCards)
  have draw: "\<exists>c d'. Draw d = Some (c, d')
           \<and> shoe d' = shoe d
           \<and> (if cards d = []
               then length (cards (reset d)) = 52 * nat (shoe d)
                    \<and> mset (cards (reset d)) = mset (freshCards (shoe d))
                    \<and> c = last (cards (reset d)) \<and> cards d' = butlast (cards (reset d))
               else c = last (cards d) \<and> cards d' = butlast (cards d))
           \<and> Suc (length (cards d')) =
               (if cards d = [] then 52 * nat (shoe d) else length (cards d))"
    if ok: "1 \<le> shoe d"
  proof (cases "cards d = []")
    case True
    have pos: "0 < nat (shoe d)" using ok by simp
    from Draw_empty [OF True ok] True pos show ?thesis
      by (simp add: reset_shoe reset_length reset_cards)
  next
    case False
    from Draw_full [OF False] False show ?thesis by simp
  qed
  from NewDeck_shoe NewDeck_length count draw show ?thesis by blast
qed

theorem Draw_never_empty_witness:
  "1 \<le> shoe \<lparr>cards = [], rng = (\<lambda>k. 1), shoe = 1\<rparr>
   \<and> fst (the (Draw \<lparr>cards = [], rng = (\<lambda>k. 1), shoe = 1\<rparr>)) = \<lparr>Suit = Clubs, Rank = Two\<rparr>
   \<and> length (cards (snd (the (Draw \<lparr>cards = [], rng = (\<lambda>k. 1), shoe = 1\<rparr>)))) = 51"
proof -
  let ?d = "\<lparr>cards = [], rng = (\<lambda>k. 1), shoe = 1\<rparr>"
  have ok: "1 \<le> shoe ?d" by simp
  from Draw_never_empty [where d = ?d] ok
  obtain c d' where dr: "Draw ?d = Some (c, d')"
    and len: "Suc (length (cards d')) = (if cards ?d = [] then 52 * nat (shoe ?d) else length (cards ?d))"
    by blast
  from len have "length (cards d') = 51" by simp
  with dr have l: "length (cards (snd (the (Draw ?d)))) = 51" by simp
  have c: "fst (the (Draw ?d)) = \<lparr>Suit = Clubs, Rank = Two\<rparr>" by code_simp
  from ok l c show ?thesis by simp
qed

section \<open>The dealer's loop ends\<close>

lemma dealerDraw_cards:
  "dealerDraw g = Some g1 \<Longrightarrow> \<exists>c. Cards (Dealer g1) = Cards (Dealer g) @ [c]"
  by (auto simp: dealerDraw_def Add_def split: option.splits)

lemma hardSum_snoc: "hardSum (cs @ [c]) = hardSum cs + cardPoints c"
  by (simp add: hardSum_def)

lemma Value_ge_hardSum: "hardSum (Cards h) \<le> fst (Value h)"
  by (simp add: Value_closed del: set_map)

termination dealerLoop
proof (relation "measure (\<lambda>g. nat (18 - hardSum (Cards (Dealer g))))")
  show "wf (measure (\<lambda>g. nat (18 - hardSum (Cards (Dealer g)))))" by simp
next
  fix g :: Game and x g1
  assume x: "x = fst (Value (Dealer g))"
    and cond: "x < 17 \<or> x = 17 \<and> isDealerSoft g"
    and draw: "dealerDraw g = Some g1"
  from x cond have "fst (Value (Dealer g)) \<le> 17" by auto
  with Value_ge_hardSum [of "Dealer g"] have le: "hardSum (Cards (Dealer g)) \<le> 17" by linarith
  from dealerDraw_cards [OF draw] obtain c where c: "Cards (Dealer g1) = Cards (Dealer g) @ [c]" ..
  have "hardSum (Cards (Dealer g1)) = hardSum (Cards (Dealer g)) + cardPoints c"
    by (simp only: c hardSum_snoc)
  with cardPoints_pos [of c] have "hardSum (Cards (Dealer g)) < hardSum (Cards (Dealer g1))"
    by linarith
  with le show "(g1, g) \<in> measure (\<lambda>g. nat (18 - hardSum (Cards (Dealer g))))"
    by simp
qed

section \<open>The game\<close>

declare dealerLoop.simps [simp del]

lemma finishRound_State: "State (finishRound g) = RoundOver"
  by (simp add: finishRound_def Let_def)

lemma finishRound_keeps:
  "Deck (finishRound g) = Deck g" "Player (finishRound g) = Player g"
  "Dealer (finishRound g) = Dealer g"
  by (simp_all add: finishRound_def Let_def)

lemma finishRound_Result_nonempty: "Result (finishRound g) \<noteq> []"
  by (simp add: finishRound_def Let_def)

lemma playerDraw_some:
  assumes "1 \<le> shoe (Deck g)"
  shows "\<exists>c d'. Draw (Deck g) = Some (c, d') \<and> shoe d' = shoe (Deck g)
           \<and> playerDraw g = Some (g\<lparr>Deck := d', Player := Add (Player g) c\<rparr>)"
proof -
  from Draw_some [OF assms] obtain c d' where "Draw (Deck g) = Some (c, d')" "shoe d' = shoe (Deck g)"
    by blast
  then show ?thesis by (simp add: playerDraw_def)
qed

lemma dealerDraw_some:
  assumes "1 \<le> shoe (Deck g)"
  shows "\<exists>c d'. Draw (Deck g) = Some (c, d') \<and> shoe d' = shoe (Deck g)
           \<and> dealerDraw g = Some (g\<lparr>Deck := d', Dealer := Add (Dealer g) c\<rparr>)"
proof -
  from Draw_some [OF assms] obtain c d' where "Draw (Deck g) = Some (c, d')" "shoe d' = shoe (Deck g)"
    by blast
  then show ?thesis by (simp add: dealerDraw_def)
qed

text \<open>
  C7. In every state other than \<open>PlayerTurn\<close>, \<open>PlayerHit\<close> and \<open>PlayerStand\<close> return
  without an error and leave the whole game as it was: state, result, both hands and
  the deck (no card is drawn).
\<close>

theorem illegal_calls_ignored:
  assumes "State g \<noteq> PlayerTurn"
  shows "PlayerHit g = Some g \<and> PlayerStand g = Some g"
  using assms by (simp add: PlayerHit_def PlayerStand_def)

definition overGame :: Game where
  "overGame =
     \<lparr>Deck = \<lparr>cards = [\<lparr>Suit = Hearts, Rank = Five\<rparr>], rng = (\<lambda>k. 0), shoe = 1\<rparr>,
      Player = \<lparr>Cards = [\<lparr>Suit = Clubs, Rank = Ten\<rparr>, \<lparr>Suit = Clubs, Rank = Nine\<rparr>]\<rparr>,
      Dealer = \<lparr>Cards = [\<lparr>Suit = Spades, Rank = Ten\<rparr>, \<lparr>Suit = Spades, Rank = Eight\<rparr>]\<rparr>,
      State = RoundOver, Result = ''Player wins! (19 vs 18)''\<rparr>"

theorem illegal_calls_ignored_witness:
  "State overGame \<noteq> PlayerTurn \<and> PlayerHit overGame = Some overGame
   \<and> PlayerStand overGame = Some overGame
   \<and> Cards (Player (the (PlayerHit overGame))) =
       [\<lparr>Suit = Clubs, Rank = Ten\<rparr>, \<lparr>Suit = Clubs, Rank = Nine\<rparr>]
   \<and> Result (the (PlayerHit overGame)) = ''Player wins! (19 vs 18)''"
proof -
  have s: "State overGame \<noteq> PlayerTurn" by (simp add: overGame_def)
  from illegal_calls_ignored [OF s] s show ?thesis by (simp add: overGame_def)
qed

lemma sublist_second: "sublist y (a @ x @ b @ y @ c)"
proof -
  have "a @ x @ b @ y @ c = (a @ x @ b) @ y @ c" by simp
  then show ?thesis by (simp only: sublist_appendI)
qed

lemma result_shape:
  "(if c1 then
      (if c1 then a1 @ x @ b1 else if c2 then a2 @ y @ b2
       else if c3 then a3 @ x @ m3 @ y @ b3 else if c4 then a4 @ y @ m4 @ x @ b4
       else a5 @ x @ m5 @ y @ b5) = a1 @ x @ b1
      \<and> sublist x
         (if c1 then a1 @ x @ b1 else if c2 then a2 @ y @ b2
          else if c3 then a3 @ x @ m3 @ y @ b3 else if c4 then a4 @ y @ m4 @ x @ b4
          else a5 @ x @ m5 @ y @ b5)
    else if c2 then
      (if c1 then a1 @ x @ b1 else if c2 then a2 @ y @ b2
       else if c3 then a3 @ x @ m3 @ y @ b3 else if c4 then a4 @ y @ m4 @ x @ b4
       else a5 @ x @ m5 @ y @ b5) = a2 @ y @ b2
      \<and> sublist y
         (if c1 then a1 @ x @ b1 else if c2 then a2 @ y @ b2
          else if c3 then a3 @ x @ m3 @ y @ b3 else if c4 then a4 @ y @ m4 @ x @ b4
          else a5 @ x @ m5 @ y @ b5)
    else if c3 then
      (if c1 then a1 @ x @ b1 else if c2 then a2 @ y @ b2
       else if c3 then a3 @ x @ m3 @ y @ b3 else if c4 then a4 @ y @ m4 @ x @ b4
       else a5 @ x @ m5 @ y @ b5) = a3 @ x @ m3 @ y @ b3
      \<and> sublist x
         (if c1 then a1 @ x @ b1 else if c2 then a2 @ y @ b2
          else if c3 then a3 @ x @ m3 @ y @ b3 else if c4 then a4 @ y @ m4 @ x @ b4
          else a5 @ x @ m5 @ y @ b5)
      \<and> sublist y
         (if c1 then a1 @ x @ b1 else if c2 then a2 @ y @ b2
          else if c3 then a3 @ x @ m3 @ y @ b3 else if c4 then a4 @ y @ m4 @ x @ b4
          else a5 @ x @ m5 @ y @ b5)
    else if c4 then
      (if c1 then a1 @ x @ b1 else if c2 then a2 @ y @ b2
       else if c3 then a3 @ x @ m3 @ y @ b3 else if c4 then a4 @ y @ m4 @ x @ b4
       else a5 @ x @ m5 @ y @ b5) = a4 @ y @ m4 @ x @ b4
      \<and> sublist x
         (if c1 then a1 @ x @ b1 else if c2 then a2 @ y @ b2
          else if c3 then a3 @ x @ m3 @ y @ b3 else if c4 then a4 @ y @ m4 @ x @ b4
          else a5 @ x @ m5 @ y @ b5)
      \<and> sublist y
         (if c1 then a1 @ x @ b1 else if c2 then a2 @ y @ b2
          else if c3 then a3 @ x @ m3 @ y @ b3 else if c4 then a4 @ y @ m4 @ x @ b4
          else a5 @ x @ m5 @ y @ b5)
    else
      (if c1 then a1 @ x @ b1 else if c2 then a2 @ y @ b2
       else if c3 then a3 @ x @ m3 @ y @ b3 else if c4 then a4 @ y @ m4 @ x @ b4
       else a5 @ x @ m5 @ y @ b5) = a5 @ x @ m5 @ y @ b5
      \<and> sublist x
         (if c1 then a1 @ x @ b1 else if c2 then a2 @ y @ b2
          else if c3 then a3 @ x @ m3 @ y @ b3 else if c4 then a4 @ y @ m4 @ x @ b4
          else a5 @ x @ m5 @ y @ b5)
      \<and> sublist y
         (if c1 then a1 @ x @ b1 else if c2 then a2 @ y @ b2
          else if c3 then a3 @ x @ m3 @ y @ b3 else if c4 then a4 @ y @ m4 @ x @ b4
          else a5 @ x @ m5 @ y @ b5))"
  by (simp add: sublist_second)

definition dealerBustGame :: Game where
  "dealerBustGame =
     \<lparr>Deck = \<lparr>cards = [\<lparr>Suit = Hearts, Rank = Five\<rparr>], rng = (\<lambda>k. 0), shoe = 1\<rparr>,
      Player = \<lparr>Cards = [\<lparr>Suit = Clubs, Rank = Ten\<rparr>, \<lparr>Suit = Clubs, Rank = Nine\<rparr>]\<rparr>,
      Dealer = \<lparr>Cards = [\<lparr>Suit = Spades, Rank = Ten\<rparr>, \<lparr>Suit = Spades, Rank = Six\<rparr>,
                         \<lparr>Suit = Hearts, Rank = King\<rparr>]\<rparr>,
      State = DealerTurn, Result = []\<rparr>"

text \<open>
  C5, as the code has it. \<open>finishRound\<close> always sets the state to \<open>RoundOver\<close>, leaves
  deck and hands alone, and sets the result by priority: the player's value above 21,
  the dealer wins, and the message holds the player's value only; otherwise the
  dealer's value above 21, the player wins, and the message holds the dealer's value
  only; otherwise the strictly higher value wins, equal values are a push, and the
  message holds both values.
\<close>

theorem finishRound_result:
  "State (finishRound g) = RoundOver
   \<and> Deck (finishRound g) = Deck g \<and> Player (finishRound g) = Player g
   \<and> Dealer (finishRound g) = Dealer g
   \<and> (let p = fst (Value (Player g)); d = fst (Value (Dealer g)); res = Result (finishRound g)
      in if 21 < p then
           res = ''Player busts ('' @ showInt p @ ''). Dealer wins.'' \<and> sublist (showInt p) res
         else if 21 < d then
           res = ''Dealer busts ('' @ showInt d @ ''). Player wins!'' \<and> sublist (showInt d) res
         else if d < p then
           res = ''Player wins! ('' @ showInt p @ '' vs '' @ showInt d @ '')''
           \<and> sublist (showInt p) res \<and> sublist (showInt d) res
         else if p < d then
           res = ''Dealer wins. ('' @ showInt d @ '' vs '' @ showInt p @ '')''
           \<and> sublist (showInt p) res \<and> sublist (showInt d) res
         else
           res = ''Push. ('' @ showInt p @ '' vs '' @ showInt d @ '')''
           \<and> sublist (showInt p) res \<and> sublist (showInt d) res)"
proof -
  let ?p = "fst (Value (Player g))" and ?d = "fst (Value (Dealer g))"
  have fields: "State (finishRound g) = RoundOver \<and> Deck (finishRound g) = Deck g
      \<and> Player (finishRound g) = Player g \<and> Dealer (finishRound g) = Dealer g"
    by (simp add: finishRound_State finishRound_keeps)
  have res: "Result (finishRound g) =
      (if 21 < ?p then ''Player busts ('' @ showInt ?p @ ''). Dealer wins.''
       else if 21 < ?d then ''Dealer busts ('' @ showInt ?d @ ''). Player wins!''
       else if ?d < ?p then ''Player wins! ('' @ showInt ?p @ '' vs '' @ showInt ?d @ '')''
       else if ?p < ?d then ''Dealer wins. ('' @ showInt ?d @ '' vs '' @ showInt ?p @ '')''
       else ''Push. ('' @ showInt ?p @ '' vs '' @ showInt ?d @ '')'')"
    by (simp add: finishRound_def Let_def)
  have "let p = ?p; d = ?d; res = Result (finishRound g)
      in if 21 < p then
           res = ''Player busts ('' @ showInt p @ ''). Dealer wins.'' \<and> sublist (showInt p) res
         else if 21 < d then
           res = ''Dealer busts ('' @ showInt d @ ''). Player wins!'' \<and> sublist (showInt d) res
         else if d < p then
           res = ''Player wins! ('' @ showInt p @ '' vs '' @ showInt d @ '')''
           \<and> sublist (showInt p) res \<and> sublist (showInt d) res
         else if p < d then
           res = ''Dealer wins. ('' @ showInt d @ '' vs '' @ showInt p @ '')''
           \<and> sublist (showInt p) res \<and> sublist (showInt d) res
         else
           res = ''Push. ('' @ showInt p @ '' vs '' @ showInt d @ '')''
           \<and> sublist (showInt p) res \<and> sublist (showInt d) res"
    unfolding Let_def res by (rule result_shape)
  with fields show ?thesis by blast
qed

text \<open>
  The claim that every round the player does not bust reports both values fails when
  the dealer busts: a player at 19 against a dealer at 26 gets a message with 26 only.
\<close>

theorem finishRound_dealer_bust_counterexample:
  "fst (Value (Player dealerBustGame)) = 19
   \<and> fst (Value (Dealer dealerBustGame)) = 26
   \<and> Result (finishRound dealerBustGame) = ''Dealer busts (26). Player wins!''
   \<and> \<not> sublist (showInt (fst (Value (Player dealerBustGame)))) (Result (finishRound dealerBustGame))"
  by code_simp

lemma Hand_update: "(h::Hand)\<lparr>Cards := xs\<rparr> = \<lparr>Cards = xs\<rparr>"
  by (cases h) simp

lemma Hand_eta: "\<lparr>Cards = Cards h\<rparr> = (h::Hand)"
  by (cases h) simp

lemma Deal_draws:
  assumes ok: "1 \<le> shoe (Deck g)"
  shows "\<exists>c1 d1 c2 d2 c3 d3 c4 d4.
      Draw (Deck g) = Some (c1, d1) \<and> Draw d1 = Some (c2, d2)
      \<and> Draw d2 = Some (c3, d3) \<and> Draw d3 = Some (c4, d4) \<and> shoe d4 = shoe (Deck g)
      \<and> Deal g = Some
          (let g4 = g\<lparr>Deck := d4, Player := \<lparr>Cards = [c1, c3]\<rparr>, Dealer := \<lparr>Cards = [c2, c4]\<rparr>,
                      State := PlayerTurn, Result := []\<rparr>
           in if fst (Value (Player g4)) = 21 \<or> fst (Value (Dealer g4)) = 21
              then finishRound g4 else g4)"
proof -
  from Draw_some [OF ok] obtain c1 d1 where
    a1: "Draw (Deck g) = Some (c1, d1)" and s1: "shoe d1 = shoe (Deck g)" by blast
  from s1 ok have "1 \<le> shoe d1" by simp
  from Draw_some [OF this] obtain c2 d2 where
    a2: "Draw d1 = Some (c2, d2)" and s2: "shoe d2 = shoe d1" by blast
  from s2 s1 ok have "1 \<le> shoe d2" by simp
  from Draw_some [OF this] obtain c3 d3 where
    a3: "Draw d2 = Some (c3, d3)" and s3: "shoe d3 = shoe d2" by blast
  from s3 s2 s1 ok have "1 \<le> shoe d3" by simp
  from Draw_some [OF this] obtain c4 d4 where
    a4: "Draw d3 = Some (c4, d4)" and s4: "shoe d4 = shoe d3" by blast
  have "Deal g = Some
          (let g4 = g\<lparr>Deck := d4, Player := \<lparr>Cards = [c1, c3]\<rparr>, Dealer := \<lparr>Cards = [c2, c4]\<rparr>,
                      State := PlayerTurn, Result := []\<rparr>
           in if fst (Value (Player g4)) = 21 \<or> fst (Value (Dealer g4)) = 21
              then finishRound g4 else g4)"
    using a1 a2 a3 a4
    by (cases g)
      (simp add: Deal_def playerDraw_def dealerDraw_def Clear_def Add_def Hand_update Let_def)
  with a1 a2 a3 a4 s1 s2 s3 s4 show ?thesis by auto
qed

text \<open>
  C1. \<open>Deal\<close> checks no guard: from any state of a game whose deck has a shoe count
  of at least 1, it succeeds, the four cards are the next four draws, the player holds
  the first and the third, the dealer the second and the fourth, and nothing of the
  old hands or the old result is left. If the player's or the dealer's value is exactly
  21 the round is resolved: the state is \<open>RoundOver\<close> and the result is not empty;
  otherwise the state is \<open>PlayerTurn\<close> and the result is empty.
\<close>

theorem Deal_any_state:
  assumes ok: "1 \<le> shoe (Deck g)"
  shows "\<exists>c1 d1 c2 d2 c3 d3 c4 d4 g'.
      Draw (Deck g) = Some (c1, d1) \<and> Draw d1 = Some (c2, d2)
      \<and> Draw d2 = Some (c3, d3) \<and> Draw d3 = Some (c4, d4)
      \<and> Deal g = Some g'
      \<and> Cards (Player g') = [c1, c3] \<and> Cards (Dealer g') = [c2, c4] \<and> Deck g' = d4
      \<and> (if fst (Value (Player g')) = 21 \<or> fst (Value (Dealer g')) = 21
          then State g' = RoundOver \<and> Result g' \<noteq> []
          else State g' = PlayerTurn \<and> Result g' = [])"
proof -
  from Deal_draws [OF ok] obtain c1 d1 c2 d2 c3 d3 c4 d4 where
    dr: "Draw (Deck g) = Some (c1, d1)" "Draw d1 = Some (c2, d2)"
        "Draw d2 = Some (c3, d3)" "Draw d3 = Some (c4, d4)"
    and deal: "Deal g = Some
          (let g4 = g\<lparr>Deck := d4, Player := \<lparr>Cards = [c1, c3]\<rparr>, Dealer := \<lparr>Cards = [c2, c4]\<rparr>,
                      State := PlayerTurn, Result := []\<rparr>
           in if fst (Value (Player g4)) = 21 \<or> fst (Value (Dealer g4)) = 21
              then finishRound g4 else g4)"
    by blast
  define g4 where "g4 = g\<lparr>Deck := d4, Player := \<lparr>Cards = [c1, c3]\<rparr>,
    Dealer := \<lparr>Cards = [c2, c4]\<rparr>, State := PlayerTurn, Result := []\<rparr>"
  define g' where "g' = (if fst (Value (Player g4)) = 21 \<or> fst (Value (Dealer g4)) = 21
              then finishRound g4 else g4)"
  from deal have d: "Deal g = Some g'" by (simp add: g'_def g4_def Let_def)
  have hands: "Player g' = Player g4" "Dealer g' = Dealer g4" "Deck g' = Deck g4"
    by (simp_all add: g'_def finishRound_keeps)
  have p: "Cards (Player g') = [c1, c3]" "Cards (Dealer g') = [c2, c4]" "Deck g' = d4"
    by (simp_all add: hands) (simp_all add: g4_def)
  have st: "if fst (Value (Player g')) = 21 \<or> fst (Value (Dealer g')) = 21
          then State g' = RoundOver \<and> Result g' \<noteq> []
          else State g' = PlayerTurn \<and> Result g' = []"
  proof (cases "fst (Value (Player g4)) = 21 \<or> fst (Value (Dealer g4)) = 21")
    case True
    then have "g' = finishRound g4" by (simp add: g'_def)
    with True show ?thesis
      by (simp add: hands finishRound_State finishRound_Result_nonempty finishRound_keeps)
  next
    case False
    then have "g' = g4" by (simp add: g'_def)
    with False show ?thesis by (simp add: g4_def)
  qed
  from dr d p st show ?thesis by blast
qed

definition midRoundGame :: Game where
  "midRoundGame =
     \<lparr>Deck = \<lparr>cards = [\<lparr>Suit = Hearts, Rank = Five\<rparr>, \<lparr>Suit = Diamonds, Rank = Nine\<rparr>,
                       \<lparr>Suit = Clubs, Rank = Seven\<rparr>, \<lparr>Suit = Spades, Rank = King\<rparr>,
                       \<lparr>Suit = Hearts, Rank = Eight\<rparr>],
              rng = (\<lambda>k. 0), shoe = 1\<rparr>,
      Player = \<lparr>Cards = [\<lparr>Suit = Clubs, Rank = Ten\<rparr>, \<lparr>Suit = Clubs, Rank = Two\<rparr>]\<rparr>,
      Dealer = \<lparr>Cards = [\<lparr>Suit = Spades, Rank = Ten\<rparr>, \<lparr>Suit = Spades, Rank = Six\<rparr>]\<rparr>,
      State = PlayerTurn, Result = []\<rparr>"

theorem Deal_any_state_witness:
  "1 \<le> shoe (Deck midRoundGame)
   \<and> Cards (Player (the (Deal midRoundGame))) =
       [\<lparr>Suit = Hearts, Rank = Eight\<rparr>, \<lparr>Suit = Clubs, Rank = Seven\<rparr>]
   \<and> Cards (Dealer (the (Deal midRoundGame))) =
       [\<lparr>Suit = Spades, Rank = King\<rparr>, \<lparr>Suit = Diamonds, Rank = Nine\<rparr>]
   \<and> cards (Deck (the (Deal midRoundGame))) = [\<lparr>Suit = Hearts, Rank = Five\<rparr>]
   \<and> State (the (Deal midRoundGame)) = PlayerTurn
   \<and> Result (the (Deal midRoundGame)) = []"
proof -
  have ok: "1 \<le> shoe (Deck midRoundGame)" by (simp add: midRoundGame_def)
  have dr: "Draw (Deck midRoundGame) =
      Some (\<lparr>Suit = Hearts, Rank = Eight\<rparr>,
        \<lparr>cards = [\<lparr>Suit = Hearts, Rank = Five\<rparr>, \<lparr>Suit = Diamonds, Rank = Nine\<rparr>,
                       \<lparr>Suit = Clubs, Rank = Seven\<rparr>, \<lparr>Suit = Spades, Rank = King\<rparr>],
              rng = (\<lambda>k. 0), shoe = 1\<rparr>)"
    by (simp add: midRoundGame_def Draw_def)
  from Deal_any_state [OF ok] obtain c1 d1 c2 d2 c3 d3 c4 d4 g' where
    f: "Draw (Deck midRoundGame) = Some (c1, d1)" "Draw d1 = Some (c2, d2)"
       "Draw d2 = Some (c3, d3)" "Draw d3 = Some (c4, d4)"
       "Deal midRoundGame = Some g'"
       "Cards (Player g') = [c1, c3]" "Cards (Dealer g') = [c2, c4]" "Deck g' = d4"
       "if fst (Value (Player g')) = 21 \<or> fst (Value (Dealer g')) = 21
          then State g' = RoundOver \<and> Result g' \<noteq> []
          else State g' = PlayerTurn \<and> Result g' = []"
    by blast
  from f(1) dr have e1: "c1 = \<lparr>Suit = Hearts, Rank = Eight\<rparr>"
    "d1 = \<lparr>cards = [\<lparr>Suit = Hearts, Rank = Five\<rparr>, \<lparr>Suit = Diamonds, Rank = Nine\<rparr>,
                       \<lparr>Suit = Clubs, Rank = Seven\<rparr>, \<lparr>Suit = Spades, Rank = King\<rparr>],
              rng = (\<lambda>k. 0), shoe = 1\<rparr>" by simp_all
  from f(2) have e2: "c2 = \<lparr>Suit = Spades, Rank = King\<rparr>"
    "d2 = \<lparr>cards = [\<lparr>Suit = Hearts, Rank = Five\<rparr>, \<lparr>Suit = Diamonds, Rank = Nine\<rparr>,
                       \<lparr>Suit = Clubs, Rank = Seven\<rparr>], rng = (\<lambda>k. 0), shoe = 1\<rparr>"
    by (auto simp: e1 Draw_def)
  from f(3) have e3: "c3 = \<lparr>Suit = Clubs, Rank = Seven\<rparr>"
    "d3 = \<lparr>cards = [\<lparr>Suit = Hearts, Rank = Five\<rparr>, \<lparr>Suit = Diamonds, Rank = Nine\<rparr>],
           rng = (\<lambda>k. 0), shoe = 1\<rparr>"
    by (auto simp: e2 Draw_def)
  from f(4) have e4: "c4 = \<lparr>Suit = Diamonds, Rank = Nine\<rparr>"
    "d4 = \<lparr>cards = [\<lparr>Suit = Hearts, Rank = Five\<rparr>], rng = (\<lambda>k. 0), shoe = 1\<rparr>"
    by (auto simp: e3 Draw_def)
  have v: "fst (Value (Player g')) = 15" "fst (Value (Dealer g')) = 19"
    by (simp_all add: Value_closed hardSum_def cardPoints_def f(6,7) e1 e2 e3 e4)
  with f(9) have "State g' = PlayerTurn \<and> Result g' = []" by simp
  with ok f(5,6,7,8) e1 e2 e3 e4 show ?thesis by simp
qed


lemma showInt_22: "showInt 22 = ''22''"
  by code_simp

lemma PlayerHit_turn:
  assumes ok: "1 \<le> shoe (Deck g)" and turn: "State g = PlayerTurn"
  shows "\<exists>c d'. Draw (Deck g) = Some (c, d') \<and> shoe d' = shoe (Deck g)
      \<and> PlayerHit g = Some
          (let g1 = g\<lparr>Deck := d', Player := Add (Player g) c\<rparr>
           in if 21 < fst (Value (Player g1)) then finishRound g1 else g1)"
proof -
  from playerDraw_some [OF ok] obtain c d' where
    dr: "Draw (Deck g) = Some (c, d')" and sh: "shoe d' = shoe (Deck g)"
    and pd: "playerDraw g = Some (g\<lparr>Deck := d', Player := Add (Player g) c\<rparr>)"
    by blast
  from turn pd have "PlayerHit g = Some
          (let g1 = g\<lparr>Deck := d', Player := Add (Player g) c\<rparr>
           in if 21 < fst (Value (Player g1)) then finishRound g1 else g1)"
    by (simp add: PlayerHit_def Let_def)
  with dr sh show ?thesis by blast
qed

text \<open>
  C6. In a game in state \<open>PlayerTurn\<close> (its result empty, as \<open>Deal\<close> leaves it, and the
  shoe count of its deck at least 1), \<open>PlayerHit\<close> draws exactly one card, the next
  of the deck, into the player's hand, and resolves the round exactly when the player's
  new value exceeds 21: the state is then \<open>RoundOver\<close> and the result names the bust
  value, "Player busts (22)" for 22. A value of at most 21, 21 included, leaves the
  state \<open>PlayerTurn\<close> and the result empty.
\<close>

theorem PlayerHit_one_card:
  assumes ok: "1 \<le> shoe (Deck g)" and turn: "State g = PlayerTurn" and clean: "Result g = []"
  shows "\<exists>c d' g'. Draw (Deck g) = Some (c, d') \<and> PlayerHit g = Some g'
      \<and> Cards (Player g') = Cards (Player g) @ [c] \<and> Deck g' = d' \<and> Dealer g' = Dealer g
      \<and> (State g' = RoundOver) = (21 < fst (Value (Player g')))
      \<and> (if 21 < fst (Value (Player g'))
          then State g' = RoundOver
               \<and> Result g' = ''Player busts ('' @ showInt (fst (Value (Player g'))) @ ''). Dealer wins.''
          else State g' = PlayerTurn \<and> Result g' = [])
      \<and> (fst (Value (Player g')) = 22 \<longrightarrow> sublist ''Player busts (22)'' (Result g'))"
proof -
  from PlayerHit_turn [OF ok turn] obtain c d' where
    dr: "Draw (Deck g) = Some (c, d')"
    and hit: "PlayerHit g = Some
          (let g1 = g\<lparr>Deck := d', Player := Add (Player g) c\<rparr>
           in if 21 < fst (Value (Player g1)) then finishRound g1 else g1)"
    by blast
  define g1 where "g1 = g\<lparr>Deck := d', Player := Add (Player g) c\<rparr>"
  define g' where "g' = (if 21 < fst (Value (Player g1)) then finishRound g1 else g1)"
  from hit have h: "PlayerHit g = Some g'" by (simp add: g'_def g1_def Let_def)
  have keep: "Player g' = Player g1" "Deck g' = Deck g1" "Dealer g' = Dealer g1"
    by (simp_all add: g'_def finishRound_keeps)
  have p: "Cards (Player g') = Cards (Player g) @ [c]" "Deck g' = d'" "Dealer g' = Dealer g"
    by (simp_all add: keep) (simp_all add: g1_def Add_def)
  have st: "if 21 < fst (Value (Player g'))
          then State g' = RoundOver
               \<and> Result g' = ''Player busts ('' @ showInt (fst (Value (Player g'))) @ ''). Dealer wins.''
          else State g' = PlayerTurn \<and> Result g' = []"
  proof (cases "21 < fst (Value (Player g1))")
    case True
    then have "g' = finishRound g1" by (simp add: g'_def)
    with True show ?thesis
      by (simp add: keep finishRound_State finishRound_keeps) (simp add: finishRound_def Let_def)
  next
    case False
    then have "g' = g1" by (simp add: g'_def)
    with False turn clean show ?thesis by (simp add: g1_def)
  qed
  then have iff: "(State g' = RoundOver) = (21 < fst (Value (Player g')))"
    by (auto split: if_splits)
  have b22: "sublist ''Player busts (22)'' (Result g')" if v: "fst (Value (Player g')) = 22"
  proof -
    from st v have "Result g' = ''Player busts (22)'' @ ''. Dealer wins.''"
      by (simp add: showInt_22)
    then show ?thesis by (simp only: sublist_append_rightI)
  qed
  from dr h p iff st b22 show ?thesis by blast
qed

definition bustGame :: Game where
  "bustGame =
     \<lparr>Deck = \<lparr>cards = [\<lparr>Suit = Hearts, Rank = Five\<rparr>, \<lparr>Suit = Spades, Rank = King\<rparr>],
              rng = (\<lambda>k. 0), shoe = 1\<rparr>,
      Player = \<lparr>Cards = [\<lparr>Suit = Clubs, Rank = Ten\<rparr>, \<lparr>Suit = Clubs, Rank = Two\<rparr>]\<rparr>,
      Dealer = \<lparr>Cards = [\<lparr>Suit = Spades, Rank = Ten\<rparr>, \<lparr>Suit = Spades, Rank = Six\<rparr>]\<rparr>,
      State = PlayerTurn, Result = []\<rparr>"

theorem PlayerHit_one_card_witness:
  "1 \<le> shoe (Deck bustGame) \<and> State bustGame = PlayerTurn \<and> Result bustGame = []
   \<and> Cards (Player (the (PlayerHit bustGame))) =
       [\<lparr>Suit = Clubs, Rank = Ten\<rparr>, \<lparr>Suit = Clubs, Rank = Two\<rparr>, \<lparr>Suit = Spades, Rank = King\<rparr>]
   \<and> fst (Value (Player (the (PlayerHit bustGame)))) = 22
   \<and> State (the (PlayerHit bustGame)) = RoundOver
   \<and> Result (the (PlayerHit bustGame)) = ''Player busts (22). Dealer wins.''
   \<and> sublist ''Player busts (22)'' (Result (the (PlayerHit bustGame)))"
proof -
  have ok: "1 \<le> shoe (Deck bustGame)" and turn: "State bustGame = PlayerTurn"
    and clean: "Result bustGame = []"
    by (simp_all add: bustGame_def)
  have dr: "Draw (Deck bustGame) =
      Some (\<lparr>Suit = Spades, Rank = King\<rparr>,
        \<lparr>cards = [\<lparr>Suit = Hearts, Rank = Five\<rparr>], rng = (\<lambda>k. 0), shoe = 1\<rparr>)"
    by (simp add: bustGame_def Draw_def)
  from PlayerHit_one_card [OF ok turn clean] obtain c d' g' where
    f: "Draw (Deck bustGame) = Some (c, d')" "PlayerHit bustGame = Some g'"
       "Cards (Player g') = Cards (Player bustGame) @ [c]"
       "if 21 < fst (Value (Player g'))
          then State g' = RoundOver
               \<and> Result g' = ''Player busts ('' @ showInt (fst (Value (Player g'))) @ ''). Dealer wins.''
          else State g' = PlayerTurn \<and> Result g' = []"
       "fst (Value (Player g')) = 22 \<longrightarrow> sublist ''Player busts (22)'' (Result g')"
    by blast
  from f(1) dr have c: "c = \<lparr>Suit = Spades, Rank = King\<rparr>" by simp
  with f(3) have cs: "Cards (Player g') =
      [\<lparr>Suit = Clubs, Rank = Ten\<rparr>, \<lparr>Suit = Clubs, Rank = Two\<rparr>, \<lparr>Suit = Spades, Rank = King\<rparr>]"
    by (simp add: bustGame_def)
  then have v: "fst (Value (Player g')) = 22"
    by (simp add: Value_closed hardSum_def cardPoints_def)
  with f(4) have r: "State g' = RoundOver" "Result g' = ''Player busts (22). Dealer wins.''"
    by (simp_all add: showInt_22)
  from v f(5) have s: "sublist ''Player busts (22)'' (Result g')" by simp
  from ok turn clean cs v r s f(2) show ?thesis by simp
qed

section \<open>The dealer's turn\<close>

lemma dealerLoop_condition:
  "(fst (Value (Dealer g)) < 17 \<or> (fst (Value (Dealer g)) = 17 \<and> isDealerSoft g))
     = dealerMustDraw (Dealer g)"
  by (simp add: dealerMustDraw_def isDealerSoft_def)

lemma dealerLoop_stop: "\<not> dealerMustDraw (Dealer g) \<Longrightarrow> dealerLoop g = Some g"
  by (subst dealerLoop.simps) (simp add: Let_def dealerLoop_condition)

lemma dealerLoop_step:
  "dealerMustDraw (Dealer g) \<Longrightarrow>
   dealerLoop g = (case dealerDraw g of None \<Rightarrow> None | Some g1 \<Rightarrow> dealerLoop g1)"
  by (subst dealerLoop.simps) (simp add: Let_def dealerLoop_condition)

lemma dealerMustDraw_hard: "dealerMustDraw h \<Longrightarrow> hardSum (Cards h) \<le> 17"
  using Value_ge_hardSum [of h] by (auto simp: dealerMustDraw_def)

lemma dealerMustDraw_cards: "dealerMustDraw h = dealerMustDraw \<lparr>Cards = Cards h\<rparr>"
  by (simp add: Hand_eta)

lemma dealerLoop_result:
  assumes "1 \<le> shoe (Deck g)"
  shows "\<exists>g' drawn. dealerLoop g = Some g'
      \<and> Cards (Dealer g') = Cards (Dealer g) @ drawn
      \<and> (\<forall>n<length drawn. dealerMustDraw \<lparr>Cards = Cards (Dealer g) @ take n drawn\<rparr>)
      \<and> \<not> dealerMustDraw (Dealer g')
      \<and> Player g' = Player g \<and> State g' = State g \<and> Result g' = Result g
      \<and> shoe (Deck g') = shoe (Deck g)
      \<and> (drawn = [] \<longrightarrow> g' = g)
      \<and> int (length drawn) \<le> max 0 (18 - hardSum (Cards (Dealer g)))"
  using assms
proof (induction g rule: dealerLoop.induct)
  case (1 g)
  show ?case
  proof (cases "dealerMustDraw (Dealer g)")
    case False
    then have "dealerLoop g = Some g" by (rule dealerLoop_stop)
    with False have "dealerLoop g = Some g
      \<and> Cards (Dealer g) = Cards (Dealer g) @ []
      \<and> (\<forall>n<length ([]::Card list). dealerMustDraw \<lparr>Cards = Cards (Dealer g) @ take n []\<rparr>)
      \<and> \<not> dealerMustDraw (Dealer g)
      \<and> Player g = Player g \<and> State g = State g \<and> Result g = Result g
      \<and> shoe (Deck g) = shoe (Deck g)
      \<and> (([]::Card list) = [] \<longrightarrow> g = g)
      \<and> int (length ([]::Card list)) \<le> max 0 (18 - hardSum (Cards (Dealer g)))"
      by simp
    then show ?thesis by blast
  next
    case True
    from dealerDraw_some [OF "1.prems"] obtain c d' where
      sh: "shoe d' = shoe (Deck g)"
      and dd: "dealerDraw g = Some (g\<lparr>Deck := d', Dealer := Add (Dealer g) c\<rparr>)"
      by blast
    define g1 where "g1 = g\<lparr>Deck := d', Dealer := Add (Dealer g) c\<rparr>"
    have dd1: "dealerDraw g = Some g1" by (simp add: dd g1_def)
    have cond: "fst (Value (Dealer g)) < 17 \<or> fst (Value (Dealer g)) = 17 \<and> isDealerSoft g"
      using True by (simp only: dealerLoop_condition)
    have ok1: "1 \<le> shoe (Deck g1)" using sh "1.prems" by (simp add: g1_def)
    have c1: "Cards (Dealer g1) = Cards (Dealer g) @ [c]" by (simp add: g1_def Add_def)
    have k1: "Player g1 = Player g" "State g1 = State g" "Result g1 = Result g"
      "shoe (Deck g1) = shoe (Deck g)"
      by (simp_all add: g1_def sh)
    from "1.IH" [OF refl cond dd1 ok1] obtain g' drawn1 where
      r: "dealerLoop g1 = Some g'"
      and cs: "Cards (Dealer g') = Cards (Dealer g1) @ drawn1"
      and al: "\<forall>n<length drawn1. dealerMustDraw \<lparr>Cards = Cards (Dealer g1) @ take n drawn1\<rparr>"
      and fin: "\<not> dealerMustDraw (Dealer g')"
      and keep: "Player g' = Player g1" "State g' = State g1" "Result g' = Result g1"
        "shoe (Deck g') = shoe (Deck g1)"
      and len: "int (length drawn1) \<le> max 0 (18 - hardSum (Cards (Dealer g1)))"
      by blast
    have run: "dealerLoop g = Some g'"
      by (simp add: dealerLoop_step [OF True] dd1 r)
    have cs': "Cards (Dealer g') = Cards (Dealer g) @ (c # drawn1)"
      by (simp add: cs c1)
    have al': "dealerMustDraw \<lparr>Cards = Cards (Dealer g) @ take n (c # drawn1)\<rparr>"
      if n: "n < length (c # drawn1)" for n
    proof (cases n)
      case 0
      with True show ?thesis by (simp add: Hand_eta)
    next
      case (Suc m)
      with n have "m < length drawn1" by simp
      with al have "dealerMustDraw \<lparr>Cards = Cards (Dealer g1) @ take m drawn1\<rparr>" by blast
      then show ?thesis by (simp add: Suc c1)
    qed
    have hs: "hardSum (Cards (Dealer g1)) = hardSum (Cards (Dealer g)) + cardPoints c"
      by (simp only: c1 hardSum_snoc)
    from dealerMustDraw_hard [OF True] have le: "hardSum (Cards (Dealer g)) \<le> 17" .
    from len hs le cardPoints_pos [of c]
    have len': "int (length (c # drawn1)) \<le> max 0 (18 - hardSum (Cards (Dealer g)))"
      by (simp add: max_def split: if_splits)
    have "dealerLoop g = Some g'
      \<and> Cards (Dealer g') = Cards (Dealer g) @ (c # drawn1)
      \<and> (\<forall>n<length (c # drawn1). dealerMustDraw \<lparr>Cards = Cards (Dealer g) @ take n (c # drawn1)\<rparr>)
      \<and> \<not> dealerMustDraw (Dealer g')
      \<and> Player g' = Player g \<and> State g' = State g \<and> Result g' = Result g
      \<and> shoe (Deck g') = shoe (Deck g)
      \<and> (c # drawn1 = [] \<longrightarrow> g' = g)
      \<and> int (length (c # drawn1)) \<le> max 0 (18 - hardSum (Cards (Dealer g)))"
      using run cs' al' fin keep k1 len' by simp
    then show ?thesis by blast
  qed
qed

lemma finishRound_twice: "Result (finishRound (finishRound g)) = Result (finishRound g)"
  by (simp add: finishRound_def Let_def)

lemma PlayerStand_turn:
  assumes ok: "1 \<le> shoe (Deck g)" and turn: "State g = PlayerTurn"
  shows "\<exists>g1 drawn. dealerLoop (g\<lparr>State := DealerTurn\<rparr>) = Some g1
      \<and> PlayerStand g = Some (finishRound g1)
      \<and> Cards (Dealer g1) = Cards (Dealer g) @ drawn
      \<and> (\<forall>n<length drawn. dealerMustDraw \<lparr>Cards = Cards (Dealer g) @ take n drawn\<rparr>)
      \<and> \<not> dealerMustDraw (Dealer g1)
      \<and> Player g1 = Player g \<and> shoe (Deck g1) = shoe (Deck g)
      \<and> (drawn = [] \<longrightarrow> Deck g1 = Deck g)
      \<and> int (length drawn) \<le> max 0 (18 - hardSum (Cards (Dealer g)))"
proof -
  let ?g0 = "g\<lparr>State := DealerTurn\<rparr>"
  have ok0: "1 \<le> shoe (Deck ?g0)" using ok by simp
  from dealerLoop_result [OF ok0] obtain g1 drawn where
    r: "dealerLoop ?g0 = Some g1"
    and f: "Cards (Dealer g1) = Cards (Dealer ?g0) @ drawn"
      "\<forall>n<length drawn. dealerMustDraw \<lparr>Cards = Cards (Dealer ?g0) @ take n drawn\<rparr>"
      "\<not> dealerMustDraw (Dealer g1)"
      "Player g1 = Player ?g0" "shoe (Deck g1) = shoe (Deck ?g0)"
      "drawn = [] \<longrightarrow> g1 = ?g0"
      "int (length drawn) \<le> max 0 (18 - hardSum (Cards (Dealer ?g0)))"
    by blast
  from turn r have s: "PlayerStand g = Some (finishRound g1)"
    by (simp add: PlayerStand_def)
  from f(6) have "drawn = [] \<longrightarrow> Deck g1 = Deck g" by auto
  with r s f show ?thesis by (simp del: ex_simps)
qed

text \<open>
  C4. In state \<open>PlayerTurn\<close> (the shoe count of the deck at least 1), \<open>PlayerStand\<close>
  lets the dealer draw exactly while the dealer's value is below 17, or is 17 and
  soft: every hand the dealer drew from met that condition, and the final hand does
  not, so its value is at least 17 and is not a soft 17. A dealer at a hard 16 or a
  soft 17 draws at least one card, a dealer at a hard 17 draws none (and the deck is
  untouched), and the round is resolved on the final hands with state \<open>RoundOver\<close>.
\<close>

theorem PlayerStand_dealer_rule:
  assumes ok: "1 \<le> shoe (Deck g)" and turn: "State g = PlayerTurn"
  shows "\<exists>g' drawn. PlayerStand g = Some g'
      \<and> State g' = RoundOver \<and> Player g' = Player g
      \<and> Cards (Dealer g') = Cards (Dealer g) @ drawn
      \<and> (\<forall>n<length drawn. dealerMustDraw \<lparr>Cards = Cards (Dealer g) @ take n drawn\<rparr>)
      \<and> \<not> dealerMustDraw (Dealer g')
      \<and> 17 \<le> fst (Value (Dealer g'))
      \<and> \<not> (fst (Value (Dealer g')) = 17 \<and> snd (Value (Dealer g')))
      \<and> (dealerMustDraw (Dealer g) \<longrightarrow> drawn \<noteq> [])
      \<and> (\<not> dealerMustDraw (Dealer g) \<longrightarrow> drawn = [] \<and> Deck g' = Deck g)
      \<and> (Value (Dealer g) = (16, False) \<longrightarrow> drawn \<noteq> [])
      \<and> (Value (Dealer g) = (17, True) \<longrightarrow> drawn \<noteq> [])
      \<and> (Value (Dealer g) = (17, False) \<longrightarrow> drawn = [])
      \<and> Result g' = Result (finishRound g')"
proof -
  from PlayerStand_turn [OF ok turn] obtain g1 drawn where
    s: "PlayerStand g = Some (finishRound g1)"
    and cs: "Cards (Dealer g1) = Cards (Dealer g) @ drawn"
    and al: "\<forall>n<length drawn. dealerMustDraw \<lparr>Cards = Cards (Dealer g) @ take n drawn\<rparr>"
    and fin: "\<not> dealerMustDraw (Dealer g1)"
    and pl: "Player g1 = Player g"
    and dk: "drawn = [] \<longrightarrow> Deck g1 = Deck g"
    by blast
  define g' where "g' = finishRound g1"
  have keep: "Dealer g' = Dealer g1" "Player g' = Player g1" "Deck g' = Deck g1"
    "State g' = RoundOver"
    by (simp_all add: g'_def finishRound_keeps finishRound_State)
  have res: "Result g' = Result (finishRound g')"
    by (simp add: g'_def finishRound_twice)
  from fin have v: "17 \<le> fst (Value (Dealer g'))"
    "\<not> (fst (Value (Dealer g')) = 17 \<and> snd (Value (Dealer g')))"
    by (auto simp: keep dealerMustDraw_def)
  have must: "drawn \<noteq> []" if m: "dealerMustDraw (Dealer g)"
  proof
    assume e: "drawn = []"
    with cs have "Cards (Dealer g1) = Cards (Dealer g)" by simp
    then have "dealerMustDraw (Dealer g1) = dealerMustDraw (Dealer g)"
      by (simp add: dealerMustDraw_def Value_closed del: set_map)
    with m fin show False by simp
  qed
  have stop: "drawn = []" if n: "\<not> dealerMustDraw (Dealer g)"
  proof (rule ccontr)
    assume "drawn \<noteq> []"
    then have "0 < length drawn" by simp
    with al have "dealerMustDraw \<lparr>Cards = Cards (Dealer g) @ take 0 drawn\<rparr>" by blast
    with n show False by (simp add: Hand_eta)
  qed
  have h16: "dealerMustDraw (Dealer g)" if "Value (Dealer g) = (16, False)"
    using that by (simp add: dealerMustDraw_def)
  have s17: "dealerMustDraw (Dealer g)" if "Value (Dealer g) = (17, True)"
    using that by (simp add: dealerMustDraw_def)
  have h17: "\<not> dealerMustDraw (Dealer g)" if "Value (Dealer g) = (17, False)"
    using that by (simp add: dealerMustDraw_def)
  have "PlayerStand g = Some g'
      \<and> State g' = RoundOver \<and> Player g' = Player g
      \<and> Cards (Dealer g') = Cards (Dealer g) @ drawn
      \<and> (\<forall>n<length drawn. dealerMustDraw \<lparr>Cards = Cards (Dealer g) @ take n drawn\<rparr>)
      \<and> \<not> dealerMustDraw (Dealer g')
      \<and> 17 \<le> fst (Value (Dealer g'))
      \<and> \<not> (fst (Value (Dealer g')) = 17 \<and> snd (Value (Dealer g')))
      \<and> (dealerMustDraw (Dealer g) \<longrightarrow> drawn \<noteq> [])
      \<and> (\<not> dealerMustDraw (Dealer g) \<longrightarrow> drawn = [] \<and> Deck g' = Deck g)
      \<and> (Value (Dealer g) = (16, False) \<longrightarrow> drawn \<noteq> [])
      \<and> (Value (Dealer g) = (17, True) \<longrightarrow> drawn \<noteq> [])
      \<and> (Value (Dealer g) = (17, False) \<longrightarrow> drawn = [])
      \<and> Result g' = Result (finishRound g')"
    using s cs al fin pl dk keep res v must stop h16 s17 h17
    by (simp add: g'_def [symmetric])
  then show ?thesis by blast
qed

definition standGame :: "Card list \<Rightarrow> Card list \<Rightarrow> Game" where
  "standGame dealerCards deckCards =
     \<lparr>Deck = \<lparr>cards = deckCards, rng = (\<lambda>k. 0), shoe = 1\<rparr>,
      Player = \<lparr>Cards = [\<lparr>Suit = Clubs, Rank = Ten\<rparr>, \<lparr>Suit = Clubs, Rank = Nine\<rparr>]\<rparr>,
      Dealer = \<lparr>Cards = dealerCards\<rparr>,
      State = PlayerTurn, Result = []\<rparr>"

definition hard16Game :: Game where
  "hard16Game =
     standGame [\<lparr>Suit = Spades, Rank = Ten\<rparr>, \<lparr>Suit = Spades, Rank = Six\<rparr>]
       [\<lparr>Suit = Hearts, Rank = Five\<rparr>, \<lparr>Suit = Diamonds, Rank = Eight\<rparr>, \<lparr>Suit = Clubs, Rank = Two\<rparr>]"

definition soft17Game :: Game where
  "soft17Game =
     standGame [\<lparr>Suit = Spades, Rank = Ace\<rparr>, \<lparr>Suit = Spades, Rank = Six\<rparr>]
       [\<lparr>Suit = Hearts, Rank = Five\<rparr>, \<lparr>Suit = Diamonds, Rank = Eight\<rparr>, \<lparr>Suit = Diamonds, Rank = Nine\<rparr>]"

definition hard17Game :: Game where
  "hard17Game =
     standGame [\<lparr>Suit = Spades, Rank = Ten\<rparr>, \<lparr>Suit = Spades, Rank = Seven\<rparr>]
       [\<lparr>Suit = Hearts, Rank = Five\<rparr>]"

lemma stand_hard16:
  "Value (Dealer hard16Game) = (16, False)"
  "Cards (Dealer (the (PlayerStand hard16Game))) =
     [\<lparr>Suit = Spades, Rank = Ten\<rparr>, \<lparr>Suit = Spades, Rank = Six\<rparr>, \<lparr>Suit = Clubs, Rank = Two\<rparr>]"
  "Result (the (PlayerStand hard16Game)) = ''Player wins! (19 vs 18)''"
  by code_simp+

lemma stand_soft17:
  "Value (Dealer soft17Game) = (17, True)"
  "Cards (Dealer (the (PlayerStand soft17Game))) =
     [\<lparr>Suit = Spades, Rank = Ace\<rparr>, \<lparr>Suit = Spades, Rank = Six\<rparr>,
      \<lparr>Suit = Diamonds, Rank = Nine\<rparr>, \<lparr>Suit = Diamonds, Rank = Eight\<rparr>]"
  "Result (the (PlayerStand soft17Game)) = ''Dealer busts (24). Player wins!''"
  by code_simp+

lemma stand_hard17:
  "Value (Dealer hard17Game) = (17, False)"
  "Cards (Dealer (the (PlayerStand hard17Game))) =
     [\<lparr>Suit = Spades, Rank = Ten\<rparr>, \<lparr>Suit = Spades, Rank = Seven\<rparr>]"
  "cards (Deck (the (PlayerStand hard17Game))) = [\<lparr>Suit = Hearts, Rank = Five\<rparr>]"
  "Result (the (PlayerStand hard17Game)) = ''Player wins! (19 vs 17)''"
  by code_simp+

theorem PlayerStand_dealer_rule_witness:
  "1 \<le> shoe (Deck hard16Game) \<and> State hard16Game = PlayerTurn
   \<and> Value (Dealer hard16Game) = (16, False)
   \<and> Cards (Dealer (the (PlayerStand hard16Game))) =
       [\<lparr>Suit = Spades, Rank = Ten\<rparr>, \<lparr>Suit = Spades, Rank = Six\<rparr>, \<lparr>Suit = Clubs, Rank = Two\<rparr>]
   \<and> State (the (PlayerStand hard16Game)) = RoundOver
   \<and> Result (the (PlayerStand hard16Game)) = ''Player wins! (19 vs 18)''
   \<and> 1 \<le> shoe (Deck soft17Game) \<and> State soft17Game = PlayerTurn
   \<and> Value (Dealer soft17Game) = (17, True)
   \<and> Cards (Dealer (the (PlayerStand soft17Game))) =
       [\<lparr>Suit = Spades, Rank = Ace\<rparr>, \<lparr>Suit = Spades, Rank = Six\<rparr>,
        \<lparr>Suit = Diamonds, Rank = Nine\<rparr>, \<lparr>Suit = Diamonds, Rank = Eight\<rparr>]
   \<and> State (the (PlayerStand soft17Game)) = RoundOver
   \<and> Result (the (PlayerStand soft17Game)) = ''Dealer busts (24). Player wins!''
   \<and> 1 \<le> shoe (Deck hard17Game) \<and> State hard17Game = PlayerTurn
   \<and> Value (Dealer hard17Game) = (17, False)
   \<and> Cards (Dealer (the (PlayerStand hard17Game))) = Cards (Dealer hard17Game)
   \<and> Deck (the (PlayerStand hard17Game)) = Deck hard17Game
   \<and> State (the (PlayerStand hard17Game)) = RoundOver
   \<and> Result (the (PlayerStand hard17Game)) = ''Player wins! (19 vs 17)''"
proof -
  have h: "1 \<le> shoe (Deck hard16Game)" "State hard16Game = PlayerTurn"
    "1 \<le> shoe (Deck soft17Game)" "State soft17Game = PlayerTurn"
    "1 \<le> shoe (Deck hard17Game)" "State hard17Game = PlayerTurn"
    by (simp_all add: hard16Game_def soft17Game_def hard17Game_def standGame_def)
  from PlayerStand_dealer_rule [OF h(1,2)] obtain a where
    a: "PlayerStand hard16Game = Some a" "State a = RoundOver" by blast
  from PlayerStand_dealer_rule [OF h(3,4)] obtain b where
    b: "PlayerStand soft17Game = Some b" "State b = RoundOver" by blast
  from PlayerStand_dealer_rule [OF h(5,6)] stand_hard17(1) obtain c drawn where
    c: "PlayerStand hard17Game = Some c" "State c = RoundOver"
      "Cards (Dealer c) = Cards (Dealer hard17Game) @ drawn"
      "\<not> dealerMustDraw (Dealer hard17Game) \<longrightarrow> drawn = [] \<and> Deck c = Deck hard17Game"
      "drawn = []"
    by blast
  have "\<not> dealerMustDraw (Dealer hard17Game)"
    by (simp add: dealerMustDraw_def stand_hard17(1))
  with c have c': "Cards (Dealer c) = Cards (Dealer hard17Game)" "Deck c = Deck hard17Game"
    by simp_all
  from h a b c c' stand_hard16 stand_soft17 stand_hard17 show ?thesis by simp
qed

section \<open>Reachable states and termination\<close>

lemma Deal_keeps:
  assumes ok: "1 \<le> shoe (Deck g)"
  shows "\<exists>g'. Deal g = Some g' \<and> shoe (Deck g') = shoe (Deck g)
      \<and> (State g' = PlayerTurn \<and> Result g' = [] \<or> State g' = RoundOver \<and> Result g' \<noteq> [])"
proof -
  from Deal_draws [OF ok] obtain c1 c2 c3 c4 d4 where
    sh: "shoe d4 = shoe (Deck g)"
    and deal: "Deal g = Some
          (let g4 = g\<lparr>Deck := d4, Player := \<lparr>Cards = [c1, c3]\<rparr>, Dealer := \<lparr>Cards = [c2, c4]\<rparr>,
                      State := PlayerTurn, Result := []\<rparr>
           in if fst (Value (Player g4)) = 21 \<or> fst (Value (Dealer g4)) = 21
              then finishRound g4 else g4)"
    by blast
  from deal sh show ?thesis
    by (simp add: Let_def finishRound_keeps finishRound_State finishRound_Result_nonempty)
qed

lemma PlayerHit_keeps:
  assumes ok: "1 \<le> shoe (Deck g)"
  shows "\<exists>g'. PlayerHit g = Some g' \<and> shoe (Deck g') = shoe (Deck g)
      \<and> (g' = g \<or> State g = PlayerTurn \<and> State g' = PlayerTurn \<and> Result g' = Result g
          \<or> State g' = RoundOver \<and> Result g' \<noteq> [])"
proof (cases "State g = PlayerTurn")
  case False
  then show ?thesis by (simp add: PlayerHit_def)
next
  case True
  from PlayerHit_turn [OF ok True] obtain c d' where
    sh: "shoe d' = shoe (Deck g)"
    and hit: "PlayerHit g = Some
          (let g1 = g\<lparr>Deck := d', Player := Add (Player g) c\<rparr>
           in if 21 < fst (Value (Player g1)) then finishRound g1 else g1)"
    by blast
  from hit sh True show ?thesis
    by (simp add: Let_def finishRound_keeps finishRound_State finishRound_Result_nonempty)
qed

lemma PlayerStand_keeps:
  assumes ok: "1 \<le> shoe (Deck g)"
  shows "\<exists>g'. PlayerStand g = Some g' \<and> shoe (Deck g') = shoe (Deck g)
      \<and> int (length (Cards (Dealer g'))) \<le>
          int (length (Cards (Dealer g))) + max 0 (18 - hardSum (Cards (Dealer g)))
      \<and> (g' = g \<or> State g' = RoundOver \<and> Result g' \<noteq> [])"
proof (cases "State g = PlayerTurn")
  case False
  then show ?thesis by (simp add: PlayerStand_def)
next
  case True
  from PlayerStand_turn [OF ok True] obtain g1 drawn where
    s: "PlayerStand g = Some (finishRound g1)"
    and cs: "Cards (Dealer g1) = Cards (Dealer g) @ drawn"
    and sh: "shoe (Deck g1) = shoe (Deck g)"
    and len: "int (length drawn) \<le> max 0 (18 - hardSum (Cards (Dealer g)))"
    by blast
  from s cs sh len show ?thesis
    by (simp add: finishRound_keeps finishRound_State finishRound_Result_nonempty)
qed

lemma reachable_invariant:
  assumes "reachable g"
  shows "1 \<le> shoe (Deck g) \<and> State g \<noteq> DealerTurn
    \<and> (State g = PlayerTurn \<longrightarrow> Result g = [])"
  using assms
proof (induction rule: reachable.induct)
  case (new shoe0 r)
  show ?case by (simp add: NewGame_def NewDeck_shoe)
next
  case (deal g g')
  then have ok: "1 \<le> shoe (Deck g)" by simp
  from Deal_keeps [OF ok] deal.hyps(2) show ?case using ok by auto
next
  case (hit g g')
  then have ok: "1 \<le> shoe (Deck g)" by simp
  from PlayerHit_keeps [OF ok] hit.hyps(2) hit.IH show ?case by auto
next
  case (stand g g')
  then have ok: "1 \<le> shoe (Deck g)" by simp
  from PlayerStand_keeps [OF ok] stand.hyps(2) stand.IH show ?case by auto
qed

lemma hardSum_Add: "hardSum (Cards h) < hardSum (Cards (Add h c))"
  using cardPoints_pos [of c] by (simp add: Add_def hardSum_snoc)

definition soft17 :: Hand where
  "soft17 = \<lparr>Cards = [\<lparr>Suit = Spades, Rank = Ace\<rparr>, \<lparr>Suit = Spades, Rank = Six\<rparr>]\<rparr>"

lemma soft17_drops:
  "Value soft17 = (17, True)"
  "Value (Add soft17 \<lparr>Suit = Diamonds, Rank = Nine\<rparr>) = (16, False)"
  "dealerMustDraw soft17"
  "dealerMustDraw (Add soft17 \<lparr>Suit = Diamonds, Rank = Nine\<rparr>)"
  by (simp_all add: soft17_def Add_def dealerMustDraw_def Value_closed hardSum_def cardPoints_def)

text \<open>
  C9. Every operation of the engine returns on every reachable state: \<open>Deal\<close>,
  \<open>PlayerHit\<close> and \<open>PlayerStand\<close> yield a game (the functions of the model are total,
  the dealer's loop by the termination proof above, and no draw fails). The dealer's
  loop returns for every deck with a shoe count of at least 1 and every dealer hand,
  after at most 18 minus the hard total draws, because every card raises the hard
  total; it does so although a draw on a soft 17 can lower the value (Ace, Six is 17,
  with a Nine it is 16) and keep the loop drawing.
\<close>

theorem engine_terminates:
  "(reachable g \<longrightarrow>
      (\<exists>g'. Deal g = Some g') \<and> (\<exists>g'. PlayerHit g = Some g')
      \<and> (\<exists>g'. PlayerStand g = Some g'
            \<and> int (length (Cards (Dealer g'))) \<le>
                int (length (Cards (Dealer g))) + max 0 (18 - hardSum (Cards (Dealer g)))))
   \<and> (1 \<le> shoe (Deck g0) \<longrightarrow>
      (\<exists>g1 drawn. dealerLoop g0 = Some g1
         \<and> Cards (Dealer g1) = Cards (Dealer g0) @ drawn
         \<and> int (length drawn) \<le> max 0 (18 - hardSum (Cards (Dealer g0)))))
   \<and> hardSum (Cards h) < hardSum (Cards (Add h c))
   \<and> Value soft17 = (17, True)
   \<and> Value (Add soft17 \<lparr>Suit = Diamonds, Rank = Nine\<rparr>) = (16, False)
   \<and> dealerMustDraw (Add soft17 \<lparr>Suit = Diamonds, Rank = Nine\<rparr>)"
proof -
  have ops: "(\<exists>g'. Deal g = Some g') \<and> (\<exists>g'. PlayerHit g = Some g')
      \<and> (\<exists>g'. PlayerStand g = Some g'
            \<and> int (length (Cards (Dealer g'))) \<le>
                int (length (Cards (Dealer g))) + max 0 (18 - hardSum (Cards (Dealer g))))"
    if "reachable g"
  proof -
    from reachable_invariant [OF that] have ok: "1 \<le> shoe (Deck g)" by simp
    from Deal_keeps [OF ok] PlayerHit_keeps [OF ok] PlayerStand_keeps [OF ok]
    show ?thesis by blast
  qed
  have loop: "\<exists>g1 drawn. dealerLoop g0 = Some g1
         \<and> Cards (Dealer g1) = Cards (Dealer g0) @ drawn
         \<and> int (length drawn) \<le> max 0 (18 - hardSum (Cards (Dealer g0)))"
    if "1 \<le> shoe (Deck g0)"
    using dealerLoop_result [OF that] by blast
  from ops loop hardSum_Add soft17_drops show ?thesis by blast
qed

definition freshGame :: Game where
  "freshGame = NewGame 1 (\<lambda>k. 1)"

definition firstDeal :: Game where
  "firstDeal = the (Deal freshGame)"

lemma firstDeal_facts:
  "State firstDeal = PlayerTurn"
  "Cards (Player firstDeal) = [\<lparr>Suit = Clubs, Rank = Two\<rparr>, \<lparr>Suit = Spades, Rank = Queen\<rparr>]"
  "Cards (Dealer firstDeal) = [\<lparr>Suit = Spades, Rank = King\<rparr>, \<lparr>Suit = Spades, Rank = Jack\<rparr>]"
  "length (cards (Deck firstDeal)) = 48"
  by code_simp+

lemma firstDeal_hit:
  "State (the (PlayerHit firstDeal)) = RoundOver"
  "Result (the (PlayerHit firstDeal)) = ''Player busts (22). Dealer wins.''"
  by code_simp+

lemma firstDeal_stand:
  "State (the (PlayerStand firstDeal)) = RoundOver"
  "Result (the (PlayerStand firstDeal)) = ''Dealer wins. (20 vs 12)''"
  by code_simp+

lemma soft17Game_loop:
  "Cards (Dealer (the (dealerLoop soft17Game))) =
     [\<lparr>Suit = Spades, Rank = Ace\<rparr>, \<lparr>Suit = Spades, Rank = Six\<rparr>,
      \<lparr>Suit = Diamonds, Rank = Nine\<rparr>, \<lparr>Suit = Diamonds, Rank = Eight\<rparr>]"
  by code_simp

theorem engine_terminates_witness:
  "reachable freshGame \<and> reachable firstDeal
   \<and> State firstDeal = PlayerTurn
   \<and> Cards (Player firstDeal) = [\<lparr>Suit = Clubs, Rank = Two\<rparr>, \<lparr>Suit = Spades, Rank = Queen\<rparr>]
   \<and> Cards (Dealer firstDeal) = [\<lparr>Suit = Spades, Rank = King\<rparr>, \<lparr>Suit = Spades, Rank = Jack\<rparr>]
   \<and> Deal firstDeal \<noteq> None
   \<and> PlayerHit firstDeal \<noteq> None
   \<and> Result (the (PlayerHit firstDeal)) = ''Player busts (22). Dealer wins.''
   \<and> PlayerStand firstDeal \<noteq> None
   \<and> Result (the (PlayerStand firstDeal)) = ''Dealer wins. (20 vs 12)''
   \<and> 1 \<le> shoe (Deck soft17Game)
   \<and> dealerLoop soft17Game \<noteq> None
   \<and> Cards (Dealer (the (dealerLoop soft17Game))) =
       [\<lparr>Suit = Spades, Rank = Ace\<rparr>, \<lparr>Suit = Spades, Rank = Six\<rparr>,
        \<lparr>Suit = Diamonds, Rank = Nine\<rparr>, \<lparr>Suit = Diamonds, Rank = Eight\<rparr>]"
proof -
  have r0: "reachable freshGame" by (simp add: freshGame_def reachable.new)
  have ok: "1 \<le> shoe (Deck soft17Game)" by (simp add: soft17Game_def standGame_def)
  note t0 = engine_terminates [of freshGame soft17Game]
  from t0 r0 obtain g1 where d: "Deal freshGame = Some g1" by blast
  then have "firstDeal = g1" by (simp add: firstDeal_def)
  with reachable.deal [OF r0 d] have r1: "reachable firstDeal" by simp
  note t1 = engine_terminates [of firstDeal soft17Game]
  from t1 r1 have ops: "Deal firstDeal \<noteq> None" "PlayerHit firstDeal \<noteq> None"
    "PlayerStand firstDeal \<noteq> None"
    by auto
  from t1 ok have loop: "dealerLoop soft17Game \<noteq> None" by auto
  from r0 r1 ops ok loop firstDeal_facts firstDeal_hit firstDeal_stand soft17Game_loop
  show ?thesis by simp
qed

section \<open>A two-card 21\<close>



















end
